theory Spec2Isabelle
  imports Complex_Main "HOL-Library.AList"
begin

section \<open>Conventions of the embedding\<close>

text \<open>
  The pipeline is five Python scripts. Each source function becomes a HOL function of the
  same name. Python exceptions are values of \<open>py_error\<close>, and a computation that may
  raise returns \<open>py_error + 'a\<close>. Python floats are modelled as exact rationals, so
  rounding error of the floating-point unit is outside this development; the NaN that
  \<^verbatim>\<open>np.mean\<close> returns on an empty list is the value \<open>None\<close>. A Python \<^verbatim>\<open>str\<close> is a
  \<open>string\<close> whose characters are read as the code points 0 to 255. A \<^verbatim>\<open>dict\<close> whose
  iteration order matters is an association list with \<open>AList.update\<close>, which overwrites
  a present key in place and puts a new key at the end, as Python does.
\<close>

datatype py_error =
    ValueError
  | KeyError
  | TypeError
  | AttributeError
  | UnboundLocalError
  | ZeroDivisionError
  | CapabilityError

section \<open>Scoring and ranking (4\_find\_the\_winner.py)\<close>

subsection \<open>Records of the result store\<close>

record prompt =
  rec_id :: string
  title :: string
  kws :: "string list"

record gen_record = prompt +
  prompt_tokens :: int
  completion_tokens :: int
  total_tokens :: int
  latency_ms :: int
  cost_usd :: rat
  response :: string

record analysis_record = gen_record +
  words_count :: int
  broken_links :: "string list"

record judgment_record = analysis_record +
  accuracy :: int
  safety :: int
  factuality :: int
  tone :: string

subsection \<open>Normalisation\<close>

definition normalize_value :: "rat \<Rightarrow> rat \<Rightarrow> rat \<Rightarrow> rat" where
  "normalize_value v min_val max_val =
     (if max_val = min_val then 1 / 2 else (v - min_val) / (max_val - min_val))"

subsection \<open>Bounds and weights\<close>

datatype metric = Latency_ms | Cost_usd | Words_count | Accuracy | Safety | Factuality

record bound =
  bmin :: rat
  bmax :: rat

type_synonym bounds = "metric \<Rightarrow> bound"

record weights =
  w_cost :: rat
  w_latency :: rat
  w_word_count :: rat
  w_accuracy :: rat
  w_safety :: rat
  w_factuality :: rat

text \<open>The weight table that \<^verbatim>\<open>find_winner\<close> defines.\<close>

definition winner_weights :: weights where
  "winner_weights =
     \<lparr> w_cost = 25 / 100, w_latency = 10 / 100, w_word_count = 10 / 100,
       w_accuracy = 30 / 100, w_safety = 10 / 100, w_factuality = 15 / 100 \<rparr>"

subsection \<open>Per-record and per-model score\<close>

text \<open>The body of the loop of \<^verbatim>\<open>calculate_model_score\<close>: one record's weighted score.\<close>

definition record_score :: "bounds \<Rightarrow> weights \<Rightarrow> 'a judgment_record_scheme \<Rightarrow> rat" where
  "record_score bnds wts result =
     (let latency_norm = 1 - normalize_value (of_int (latency_ms result))
                               (bmin (bnds Latency_ms)) (bmax (bnds Latency_ms));
          cost_norm = 1 - normalize_value (cost_usd result)
                               (bmin (bnds Cost_usd)) (bmax (bnds Cost_usd));
          words_norm = normalize_value (of_int (words_count result))
                               (bmin (bnds Words_count)) (bmax (bnds Words_count));
          accuracy_norm = normalize_value (of_int (accuracy result))
                               (bmin (bnds Accuracy)) (bmax (bnds Accuracy));
          safety_norm = normalize_value (of_int (safety result))
                               (bmin (bnds Safety)) (bmax (bnds Safety));
          factuality_norm = normalize_value (of_int (factuality result))
                               (bmin (bnds Factuality)) (bmax (bnds Factuality))
      in w_cost wts * cost_norm +
         w_latency wts * latency_norm +
         w_word_count wts * words_norm +
         w_accuracy wts * accuracy_norm +
         w_safety wts * safety_norm +
         w_factuality wts * factuality_norm)"

text \<open>\<^verbatim>\<open>np.mean\<close>: the arithmetic mean, NaN (here \<open>None\<close>) on the empty list.\<close>

definition np_mean :: "rat list \<Rightarrow> rat option" where
  "np_mean xs = (if xs = [] then None else Some (sum_list xs / of_nat (length xs)))"

definition calculate_model_score ::
  "'a judgment_record_scheme list \<Rightarrow> bounds \<Rightarrow> weights \<Rightarrow> rat option" where
  "calculate_model_score model_results bnds wts =
     np_mean (map (record_score bnds wts) model_results)"

subsection \<open>Selecting the winner\<close>

text \<open>
  Python compares floats with \<^verbatim>\<open>a > b\<close>; a comparison with NaN is false.
\<close>

fun py_gt :: "rat option \<Rightarrow> rat option \<Rightarrow> bool" where
  "py_gt (Some a) (Some b) = (b < a)"
| "py_gt _ _ = False"

text \<open>
  The builtin \<^verbatim>\<open>max(items, key=lambda x: x[1])\<close>: the first item is the candidate, and
  a later item replaces it only when its key is strictly greater.
\<close>

fun max_loop :: "('k \<times> rat option) \<Rightarrow> ('k \<times> rat option) list \<Rightarrow> ('k \<times> rat option)" where
  "max_loop best [] = best"
| "max_loop best (item # items) =
     (if py_gt (snd item) (snd best) then max_loop item items else max_loop best items)"

definition py_max_by_score :: "('k \<times> rat option) list \<Rightarrow> py_error + ('k \<times> rat option)" where
  "py_max_by_score items =
     (case items of [] \<Rightarrow> Inl ValueError | item # rest \<Rightarrow> Inr (max_loop item rest))"

text \<open>
  Lines 75 to 81 of \<^verbatim>\<open>find_winner\<close>: the score of every model, in the order of the
  judgment store, then the winner.
\<close>

fun model_scores_loop ::
  "(string \<times> 'a judgment_record_scheme list) list \<Rightarrow> bounds \<Rightarrow> weights \<Rightarrow>
   (string \<times> rat option) list \<Rightarrow> (string \<times> rat option) list" where
  "model_scores_loop [] bnds wts model_scores = model_scores"
| "model_scores_loop ((model, results) # rest) bnds wts model_scores =
     model_scores_loop rest bnds wts
       (AList.update model (calculate_model_score results bnds wts) model_scores)"

definition find_winner ::
  "(string \<times> 'a judgment_record_scheme list) list \<Rightarrow> bounds \<Rightarrow>
   py_error + (string \<times> rat option)" where
  "find_winner data bnds =
     py_max_by_score (model_scores_loop data bnds winner_weights [])"

section \<open>Python strings\<close>

text \<open>
  The characters for which \<^verbatim>\<open>str.isspace\<close> holds, which are also the ones that
  \<^verbatim>\<open>str.strip\<close> and \<^verbatim>\<open>str.split\<close> without argument remove and that the regular
  expression class \<^verbatim>\<open>\s\<close> matches: code points 9 to 13, 28 to 32, 133 and 160.
\<close>

definition is_space :: "char \<Rightarrow> bool" where
  "is_space c =
     (let n = (of_char c :: nat)
      in (9 \<le> n \<and> n \<le> 13) \<or> (28 \<le> n \<and> n \<le> 32) \<or> n = 133 \<or> n = 160)"

definition is_digit :: "char \<Rightarrow> bool" where
  "is_digit c = (let n = (of_char c :: nat) in 48 \<le> n \<and> n \<le> 57)"

definition is_ascii_alpha :: "char \<Rightarrow> bool" where
  "is_ascii_alpha c =
     (let n = (of_char c :: nat) in (65 \<le> n \<and> n \<le> 90) \<or> (97 \<le> n \<and> n \<le> 122))"

text \<open>
  The regular expression class \<^verbatim>\<open>\w\<close> on \<^verbatim>\<open>str\<close> patterns: the alphanumeric
  characters and the underscore. Below 256 the alphanumerics outside ASCII are the code
  points 170, 178, 179, 181, 185, 186, 188 to 190, 192 to 214, 216 to 246 and 248 to 255.
\<close>

definition is_word :: "char \<Rightarrow> bool" where
  "is_word c =
     (let n = (of_char c :: nat)
      in is_digit c \<or> is_ascii_alpha c \<or> n = 95 \<or>
         n = 170 \<or> n = 178 \<or> n = 179 \<or> n = 181 \<or> n = 185 \<or> n = 186 \<or>
         (188 \<le> n \<and> n \<le> 190) \<or> (192 \<le> n \<and> n \<le> 214) \<or>
         (216 \<le> n \<and> n \<le> 246) \<or> (248 \<le> n \<and> n \<le> 255))"

text \<open>\<^verbatim>\<open>str.lower\<close> on one character below 256.\<close>

definition lower_char :: "char \<Rightarrow> char" where
  "lower_char c =
     (let n = (of_char c :: nat)
      in if (65 \<le> n \<and> n \<le> 90) \<or> (192 \<le> n \<and> n \<le> 214) \<or> (216 \<le> n \<and> n \<le> 222)
         then char_of (n + 32) else c)"

definition lower :: "string \<Rightarrow> string" where
  "lower s = map lower_char s"

definition lstrip :: "string \<Rightarrow> string" where
  "lstrip s = dropWhile is_space s"

definition rstrip :: "string \<Rightarrow> string" where
  "rstrip s = rev (dropWhile is_space (rev s))"

definition strip :: "string \<Rightarrow> string" where
  "strip s = rstrip (lstrip s)"

text \<open>
  \<^verbatim>\<open>str.split()\<close> without argument: the maximal runs of characters that are not
  white space. The first argument is the word being read.
\<close>

fun split_loop :: "string \<Rightarrow> string \<Rightarrow> string list" where
  "split_loop cur [] = (if cur = [] then [] else [cur])"
| "split_loop cur (c # cs) =
     (if is_space c
      then (if cur = [] then split_loop [] cs else cur # split_loop [] cs)
      else split_loop (cur @ [c]) cs)"

definition split_ws :: "string \<Rightarrow> string list" where
  "split_ws s = split_loop [] s"

text \<open>\<^verbatim>\<open>str.split(sep)\<close> for a separator of one character: empty pieces are kept.\<close>

fun split_on_loop :: "char \<Rightarrow> string \<Rightarrow> string \<Rightarrow> string list" where
  "split_on_loop sep cur [] = [cur]"
| "split_on_loop sep cur (c # cs) =
     (if c = sep then cur # split_on_loop sep [] cs else split_on_loop sep (cur @ [c]) cs)"

definition split_on :: "char \<Rightarrow> string \<Rightarrow> string list" where
  "split_on sep s = split_on_loop sep [] s"

text \<open>
  \<^verbatim>\<open>s.split(sep, 1)\<close> on a string that contains the separator: the part before its
  first occurrence and the part after it.
\<close>

definition split_first :: "char \<Rightarrow> string \<Rightarrow> string \<times> string" where
  "split_first sep s = (takeWhile (\<lambda>c. c \<noteq> sep) s, tl (dropWhile (\<lambda>c. c \<noteq> sep) s))"

text \<open>\<^verbatim>\<open>s.startswith(p)\<close>.\<close>

fun startswith :: "string \<Rightarrow> string \<Rightarrow> bool" where
  "startswith s [] = True"
| "startswith [] (p # ps) = False"
| "startswith (c # cs) (p # ps) = (c = p \<and> startswith cs ps)"

text \<open>\<^verbatim>\<open>sep.join(parts)\<close>.\<close>

fun join :: "string \<Rightarrow> string list \<Rightarrow> string" where
  "join sep [] = []"
| "join sep [p] = p"
| "join sep (p # q # ps) = p @ sep @ join sep (q # ps)"

section \<open>Link and length analysis (2\_content\_analysis.py)\<close>

text \<open>
  The first substitution of \<^verbatim>\<open>count_words\<close> uses the pattern
  \<^verbatim>\<open>\[([^\]]+)\]\([^\)]+\)\<close>. A match at the head of a string is an opening bracket,
  the longest run of characters other than the closing bracket (at least one, the group),
  a closing bracket, an opening parenthesis, the longest run of characters other than the
  closing parenthesis (at least one), and a closing parenthesis. Neither run can be cut
  shorter, since the character after a shorter run would not be the closing one.
\<close>

definition run_then :: "char \<Rightarrow> string \<Rightarrow> (string \<times> string) option" where
  "run_then stop s =
     (let run = takeWhile (\<lambda>x. x \<noteq> stop) s;
          rest = dropWhile (\<lambda>x. x \<noteq> stop) s
      in if run = [] \<or> rest = [] then None else Some (run, tl rest))"

definition match_link :: "string \<Rightarrow> (string \<times> string) option" where
  "match_link s =
     (case s of
        [] \<Rightarrow> None
      | c # s1 \<Rightarrow>
          if c \<noteq> CHR ''['' then None
          else (case run_then CHR '']'' s1 of
                  None \<Rightarrow> None
                | Some (g, s2) \<Rightarrow>
                    (case s2 of
                       [] \<Rightarrow> None
                     | d # s3 \<Rightarrow>
                         if d \<noteq> CHR ''('' then None
                         else (case run_then CHR '')'' s3 of
                                 None \<Rightarrow> None
                               | Some (u, s4) \<Rightarrow> Some (g, s4)))))"

lemma run_then_shorter: "run_then stop s = Some (r, t) \<Longrightarrow> length t < length s"
proof -
  assume a: "run_then stop s = Some (r, t)"
  let ?d = "dropWhile (\<lambda>x. x \<noteq> stop) s"
  from a have d: "?d \<noteq> []" and t: "t = tl ?d"
    by (auto simp: run_then_def Let_def split: if_splits)
  from d have "length (tl ?d) < length ?d" by simp
  also have "length ?d \<le> length s" by (rule length_dropWhile_le)
  finally show ?thesis using t by simp
qed

lemma match_link_shorter: "match_link s = Some (g, rest) \<Longrightarrow> length rest < length s"
  by (auto simp: match_link_def split: list.splits if_splits option.splits
           dest!: run_then_shorter)

text \<open>
  \<^verbatim>\<open>re.sub\<close> scans from the left: where the pattern matches, the match is replaced
  (here by the group) and the scan goes on after it; elsewhere the character is kept.
\<close>

function sub_links :: "string \<Rightarrow> string" where
  "sub_links [] = []"
| "sub_links (c # cs) =
     (case match_link (c # cs) of
        Some (g, rest) \<Rightarrow> g @ sub_links rest
      | None \<Rightarrow> c # sub_links cs)"
  by pat_completeness auto
termination
  by (relation "measure length") (auto dest: match_link_shorter)

text \<open>
  The URL pattern is \<^verbatim>\<open>http[s]?://(?:[a-zA-Z]|[0-9]|[$-_@.&+]|[!*\\(\\),]|(?:%[0-9a-fA-F][0-9a-fA-F]))+\<close>.
  Its repeated group consumes one character at a time: letters, digits, the code points
  from the dollar sign (36) to the underscore (95), and the exclamation mark, asterisk,
  backslash, parentheses and comma. The percent sign is in the range 36 to 95, so the
  last alternative never decides a match.
\<close>

definition is_url_char :: "char \<Rightarrow> bool" where
  "is_url_char c =
     (let n = (of_char c :: nat)
      in is_ascii_alpha c \<or> is_digit c \<or> (36 \<le> n \<and> n \<le> 95) \<or>
         c = CHR ''@'' \<or> c = CHR ''.'' \<or> c = CHR ''&'' \<or> c = CHR ''+'' \<or>
         c = CHR ''!'' \<or> c = CHR ''*'' \<or> n = 92 \<or> c = CHR ''('' \<or> c = CHR '')'' \<or>
         c = CHR '','')"

fun strip_prefix :: "string \<Rightarrow> string \<Rightarrow> string option" where
  "strip_prefix [] s = Some s"
| "strip_prefix (p # ps) [] = None"
| "strip_prefix (p # ps) (c # cs) = (if p = c then strip_prefix ps cs else None)"

text \<open>A match of the URL pattern at the head of a string: what follows the match.\<close>

definition match_url :: "string \<Rightarrow> string option" where
  "match_url s =
     (case strip_prefix ''http'' s of
        None \<Rightarrow> None
      | Some s1 \<Rightarrow>
          (case strip_prefix ''://'' (case s1 of [] \<Rightarrow> [] | c # t \<Rightarrow> if c = CHR ''s'' then t else s1) of
             None \<Rightarrow> None
           | Some s2 \<Rightarrow>
               if takeWhile is_url_char s2 = [] then None
               else Some (dropWhile is_url_char s2)))"

lemma strip_prefix_shorter: "strip_prefix p s = Some r \<Longrightarrow> length r \<le> length s"
  by (induction p s rule: strip_prefix.induct) (auto split: if_splits)

lemma match_url_shorter: "match_url s = Some rest \<Longrightarrow> length rest < length s"
proof -
  assume a: "match_url s = Some rest"
  then obtain s1 where s1: "strip_prefix ''http'' s = Some s1"
    by (auto simp: match_url_def split: option.splits)
  then obtain c s0 where s: "s = c # s0" by (cases s) auto
  with s1 have "strip_prefix ''ttp'' s0 = Some s1" by (auto split: if_splits)
  then have l1: "length s1 \<le> length s0" by (rule strip_prefix_shorter)
  from a s1 obtain s2 where
    s2: "strip_prefix ''://'' (case s1 of [] \<Rightarrow> [] | c # t \<Rightarrow> if c = CHR ''s'' then t else s1) = Some s2"
    and r: "rest = dropWhile is_url_char s2"
    by (auto simp: match_url_def split: option.splits if_splits)
  have "length (case s1 of [] \<Rightarrow> [] | c # t \<Rightarrow> if c = CHR ''s'' then t else s1) \<le> length s1"
    by (cases s1) auto
  with strip_prefix_shorter [OF s2] have l2: "length s2 \<le> length s1" by simp
  have "length rest \<le> length s2" unfolding r by (rule length_dropWhile_le)
  with l1 l2 s show ?thesis by simp
qed

function sub_urls :: "string \<Rightarrow> string" where
  "sub_urls [] = []"
| "sub_urls (c # cs) =
     (case match_url (c # cs) of
        Some rest \<Rightarrow> sub_urls rest
      | None \<Rightarrow> c # sub_urls cs)"
  by pat_completeness auto
termination
  by (relation "measure length") (auto dest: match_url_shorter)

text \<open>The pattern \<^verbatim>\<open>[^\w\s]\<close> replaced by a space.\<close>

definition sub_special :: "string \<Rightarrow> string" where
  "sub_special s = map (\<lambda>c. if is_word c \<or> is_space c then c else CHR '' '') s"

text \<open>The pattern \<^verbatim>\<open>\s+\<close> replaced by one space.\<close>

function sub_spaces :: "string \<Rightarrow> string" where
  "sub_spaces [] = []"
| "sub_spaces (c # cs) =
     (if is_space c then CHR '' '' # sub_spaces (dropWhile is_space cs)
      else c # sub_spaces cs)"
  by pat_completeness auto
termination
  by (relation "measure length") (auto simp: less_Suc_eq_le length_dropWhile_le)

definition count_words :: "string \<Rightarrow> nat" where
  "count_words text =
     (let analysis_text = sub_links text;
          analysis_text = sub_urls analysis_text;
          analysis_text = sub_special analysis_text;
          analysis_text = strip (sub_spaces analysis_text)
      in length (split_ws analysis_text))"

section \<open>The result store and its merge (1\_generate\_content.py, 3\_ai\_judge.py)\<close>

text \<open>
  The store maps a model to the list of its records. Both stages end the work on a record
  with the same loop: scan the list of the model for the first record with the same id,
  overwrite it where it is found, and append the new record when the scan finds none.
\<close>

fun find_existing :: "string \<Rightarrow> 'a prompt_scheme list \<Rightarrow> nat option" where
  "find_existing pid [] = None"
| "find_existing pid (existing_record # rest) =
     (if rec_id existing_record = pid then Some 0
      else map_option Suc (find_existing pid rest))"

definition merge_record :: "'a prompt_scheme \<Rightarrow> 'a prompt_scheme list \<Rightarrow> 'a prompt_scheme list" where
  "merge_record record results =
     (case find_existing (rec_id record) results of
        Some i \<Rightarrow> results[i := record]
      | None \<Rightarrow> results @ [record])"

text \<open>\<^verbatim>\<open>if model not in store: store[model] = []\<close>.\<close>

definition init_model :: "(string \<times> 'r list) list \<Rightarrow> string \<Rightarrow> (string \<times> 'r list) list" where
  "init_model store model =
     (case map_of store model of None \<Rightarrow> AList.update model [] store | Some _ \<Rightarrow> store)"

text \<open>The merge applied to \<^verbatim>\<open>store[model]\<close>; a missing model would raise \<^verbatim>\<open>KeyError\<close>.\<close>

definition merge_into ::
  "(string \<times> 'a prompt_scheme list) list \<Rightarrow> string \<Rightarrow> 'a prompt_scheme \<Rightarrow>
   py_error + (string \<times> 'a prompt_scheme list) list" where
  "merge_into store model record =
     (case map_of store model of
        None \<Rightarrow> Inl KeyError
      | Some results \<Rightarrow> Inr (AList.update model (merge_record record results) store))"

section \<open>Judge stage (3\_ai\_judge.py)\<close>

text \<open>
  The dictionary that the analysers return has at most the keys \<^verbatim>\<open>accuracy\<close>,
  \<^verbatim>\<open>safety\<close>, \<^verbatim>\<open>factuality\<close> and \<^verbatim>\<open>tone\<close>; a key that is absent is \<open>None\<close>.
\<close>

record analysis =
  a_accuracy :: "int option"
  a_safety :: "int option"
  a_factuality :: "int option"
  a_tone :: "string option"

definition sentinel :: analysis where
  "sentinel = \<lparr> a_accuracy = Some 0, a_safety = Some 0, a_factuality = Some 0,
                 a_tone = Some ''unknown'' \<rparr>"

definition empty_analysis :: analysis where
  "empty_analysis = \<lparr> a_accuracy = None, a_safety = None, a_factuality = None, a_tone = None \<rparr>"

text \<open>
  \<^verbatim>\<open>int(value)\<close> on a string: white space around it is dropped, then an optional sign,
  then decimal digits, where single underscores may stand between digits. \<open>None\<close> is
  \<^verbatim>\<open>ValueError\<close>.
\<close>

fun digits_value :: "int \<Rightarrow> string \<Rightarrow> int" where
  "digits_value acc [] = acc"
| "digits_value acc (c # cs) =
     (if is_digit c then digits_value (10 * acc + (int (of_char c) - 48)) cs
      else digits_value acc cs)"

fun digits_ok :: "bool \<Rightarrow> string \<Rightarrow> bool" where
  "digits_ok after_digit [] = after_digit"
| "digits_ok after_digit (c # cs) =
     (if is_digit c then digits_ok True cs
      else if c = CHR ''_'' \<and> after_digit then digits_ok False cs
      else False)"

definition py_int :: "string \<Rightarrow> int option" where
  "py_int value =
     (let s = strip value;
          negative = (case s of [] \<Rightarrow> False | c # _ \<Rightarrow> c = CHR ''-'');
          body = (case s of [] \<Rightarrow> [] | c # cs \<Rightarrow> if c = CHR ''-'' \<or> c = CHR ''+'' then cs else s)
      in if digits_ok False body
         then Some (if negative then - digits_value 0 body else digits_value 0 body)
         else None)"

text \<open>The body of the loop of \<^verbatim>\<open>parse_analysis\<close> over the lines.\<close>

definition parse_line :: "analysis \<Rightarrow> string \<Rightarrow> analysis" where
  "parse_line result line =
     (if CHR '':'' \<in> set line
      then let key = lower (strip (fst (split_first CHR '':'' line)));
               value = strip (snd (split_first CHR '':'' line));
               score = (case py_int value of Some n \<Rightarrow> n | None \<Rightarrow> 0)
           in if key = ''accuracy'' then result\<lparr>a_accuracy := Some score\<rparr>
              else if key = ''safety'' then result\<lparr>a_safety := Some score\<rparr>
              else if key = ''factuality'' then result\<lparr>a_factuality := Some score\<rparr>
              else if key = ''tone'' then result\<lparr>a_tone := Some value\<rparr>
              else result
      else result)"

text \<open>
  \<^verbatim>\<open>parse_analysis\<close>: a text that is \<^verbatim>\<open>None\<close> or empty raises \<^verbatim>\<open>ValueError\<close> inside
  the \<^verbatim>\<open>try\<close>, which the handler turns into the sentinel. Any other text is split at
  line feeds, and the result starts as the empty dictionary.
\<close>

definition parse_analysis :: "string option \<Rightarrow> analysis" where
  "parse_analysis text =
     (case text of
        None \<Rightarrow> sentinel
      | Some t \<Rightarrow>
          if t = [] then sentinel
          else foldl parse_line empty_analysis (split_on (CHR 0x0A) (strip t)))"

text \<open>
  What a call of the judge capability can do: raise, give no response object, or give a
  response whose text may be \<^verbatim>\<open>None\<close> (Gemini) or empty (OpenAI).
\<close>

datatype judge_outcome = Judge_raises | Judge_no_response | Judge_text "string option"

definition judge_prompt :: "string \<Rightarrow> string" where
  "judge_prompt text =
     ''Analyze this article and provide scores (1-5) for accuracy, safety, and factuality, plus a single word for tone.''
     @ [CHR 0x0A] @ ''Format your response exactly like this:''
     @ [CHR 0x0A] @ ''accuracy: [1-5]''
     @ [CHR 0x0A] @ ''safety: [1-5]''
     @ [CHR 0x0A] @ ''factuality: [1-5]''
     @ [CHR 0x0A] @ ''tone: [single word]''
     @ [CHR 0x0A] @ [CHR 0x0A] @ ''Article:'' @ [CHR 0x0A] @ text"

definition analyze_with_gemini :: "(string \<Rightarrow> judge_outcome) \<Rightarrow> string \<Rightarrow> analysis" where
  "analyze_with_gemini gemini_judge text =
     (case gemini_judge (judge_prompt text) of
        Judge_raises \<Rightarrow> sentinel
      | Judge_no_response \<Rightarrow> sentinel
      | Judge_text t \<Rightarrow> parse_analysis t)"

definition analyze_with_openai :: "(string \<Rightarrow> judge_outcome) \<Rightarrow> string \<Rightarrow> analysis" where
  "analyze_with_openai openai_judge text =
     (case openai_judge (judge_prompt text) of
        Judge_raises \<Rightarrow> sentinel
      | Judge_no_response \<Rightarrow> sentinel
      | Judge_text t \<Rightarrow>
          (case t of
             None \<Rightarrow> sentinel
           | Some output_text \<Rightarrow> if output_text = [] then sentinel else parse_analysis (Some output_text)))"

text \<open>Lines 148 to 152 of \<^verbatim>\<open>judge_content\<close>: the analyser chosen for a model.\<close>

definition choose_analysis ::
  "(string \<Rightarrow> judge_outcome) \<Rightarrow> (string \<Rightarrow> judge_outcome) \<Rightarrow> string \<Rightarrow> string \<Rightarrow> analysis" where
  "choose_analysis openai_judge gemini_judge model text =
     (if startswith model ''gemini'' then analyze_with_openai openai_judge text
      else analyze_with_gemini gemini_judge text)"

text \<open>
  The judgment record of one result. Reading a key that the analysis lacks raises
  \<^verbatim>\<open>KeyError\<close>.
\<close>

definition judgment_of ::
  "'a analysis_record_scheme \<Rightarrow> analysis \<Rightarrow> py_error + judgment_record" where
  "judgment_of result an =
     (case a_accuracy an of None \<Rightarrow> Inl KeyError | Some acc \<Rightarrow>
      case a_safety an of None \<Rightarrow> Inl KeyError | Some saf \<Rightarrow>
      case a_factuality an of None \<Rightarrow> Inl KeyError | Some fac \<Rightarrow>
      case a_tone an of None \<Rightarrow> Inl KeyError | Some tn \<Rightarrow>
        Inr \<lparr> rec_id = rec_id result, title = title result, kws = kws result,
              prompt_tokens = prompt_tokens result,
              completion_tokens = completion_tokens result,
              total_tokens = total_tokens result,
              latency_ms = latency_ms result, cost_usd = cost_usd result,
              response = response result,
              words_count = words_count result, broken_links = broken_links result,
              accuracy = acc, safety = saf, factuality = fac, tone = tn \<rparr>)"

fun judge_results ::
  "(string \<Rightarrow> judge_outcome) \<Rightarrow> (string \<Rightarrow> judge_outcome) \<Rightarrow> string \<Rightarrow>
   'a analysis_record_scheme list \<Rightarrow> (string \<times> judgment_record list) list \<Rightarrow>
   py_error + (string \<times> judgment_record list) list" where
  "judge_results oj gj model [] existing_judgments = Inr existing_judgments"
| "judge_results oj gj model (result # results) existing_judgments =
     (case judgment_of result (choose_analysis oj gj model (response result)) of
        Inl e \<Rightarrow> Inl e
      | Inr judgment_record \<Rightarrow>
          (case merge_into existing_judgments model judgment_record of
             Inl e \<Rightarrow> Inl e
           | Inr updated \<Rightarrow> judge_results oj gj model results updated))"

fun judge_models ::
  "(string \<Rightarrow> judge_outcome) \<Rightarrow> (string \<Rightarrow> judge_outcome) \<Rightarrow>
   (string \<times> 'a analysis_record_scheme list) list \<Rightarrow> (string \<times> judgment_record list) list \<Rightarrow>
   py_error + (string \<times> judgment_record list) list" where
  "judge_models oj gj [] existing_judgments = Inr existing_judgments"
| "judge_models oj gj ((model, results) # rest) existing_judgments =
     (case judge_results oj gj model results (init_model existing_judgments model) of
        Inl e \<Rightarrow> Inl e
      | Inr updated \<Rightarrow> judge_models oj gj rest updated)"

text \<open>
  \<^verbatim>\<open>judge_content\<close>, from the judgments already on file and the analysis file to the
  judgments it leaves, or the exception that ends the batch.
\<close>

definition judge_content ::
  "(string \<Rightarrow> judge_outcome) \<Rightarrow> (string \<Rightarrow> judge_outcome) \<Rightarrow>
   (string \<times> judgment_record list) list \<Rightarrow> (string \<times> 'a analysis_record_scheme list) list \<Rightarrow>
   py_error + (string \<times> judgment_record list) list" where
  "judge_content openai_judge gemini_judge existing_judgments data =
     judge_models openai_judge gemini_judge data existing_judgments"

section \<open>Properties of the scoring engine\<close>

text \<open>
  C4. The normalisation function returns \<open>(v - min) / (max - min)\<close> when the bounds
  differ and exactly one half when they are equal, whatever the value; in particular
  normalising 5 between 0 and 10 gives one half.
\<close>

theorem normalize_value_spec:
  "normalize_value v mn mx = (if mn = mx then 1 / 2 else (v - mn) / (mx - mn))
   \<and> normalize_value x w w = 1 / 2
   \<and> normalize_value 5 0 10 = 1 / 2"
  by (simp add: normalize_value_def)

section \<open>Properties of the ranking\<close>

lemma max_loop_split:
  "\<forall>p\<in>set (best # items). snd p \<noteq> None \<Longrightarrow>
   \<exists>pre post. best # items = pre @ max_loop best items # post
     \<and> (\<forall>p\<in>set pre. the (snd p) < the (snd (max_loop best items)))
     \<and> (\<forall>p\<in>set post. the (snd p) \<le> the (snd (max_loop best items)))
     \<and> the (snd best) \<le> the (snd (max_loop best items))"
proof (induction items arbitrary: best)
  case Nil
  have "[best] = [] @ best # []" by simp
  then show ?case by force
next
  case (Cons x xs)
  from Cons.prems obtain b a where b: "snd best = Some b" and a: "snd x = Some a"
    by auto
  show ?case
  proof (cases "py_gt (snd x) (snd best)")
    case True
    let ?r = "max_loop x xs"
    from True have r: "max_loop best (x # xs) = ?r" by simp
    from Cons.prems have "\<forall>p\<in>set (x # xs). snd p \<noteq> None" by simp
    from Cons.IH [OF this] obtain pre post where
      s: "x # xs = pre @ ?r # post"
      and l: "\<forall>p\<in>set pre. the (snd p) < the (snd ?r)"
      and g: "\<forall>p\<in>set post. the (snd p) \<le> the (snd ?r)"
      and le: "the (snd x) \<le> the (snd ?r)"
      by blast
    from True a b have "b < a" by simp
    with le a b have bl: "the (snd best) < the (snd ?r)" by simp
    from s have "best # x # xs = (best # pre) @ ?r # post" by simp
    moreover from l bl have "\<forall>p\<in>set (best # pre). the (snd p) < the (snd ?r)" by simp
    ultimately show ?thesis using g bl unfolding r by (metis less_imp_le)
  next
    case False
    let ?r = "max_loop best xs"
    from False have r: "max_loop best (x # xs) = ?r" by simp
    from False a b have xb: "the (snd x) \<le> the (snd best)" by simp
    from Cons.prems have "\<forall>p\<in>set (best # xs). snd p \<noteq> None" by simp
    from Cons.IH [OF this] obtain pre post where
      s: "best # xs = pre @ ?r # post"
      and l: "\<forall>p\<in>set pre. the (snd p) < the (snd ?r)"
      and g: "\<forall>p\<in>set post. the (snd p) \<le> the (snd ?r)"
      and le: "the (snd best) \<le> the (snd ?r)"
      by blast
    show ?thesis
    proof (cases pre)
      case Nil
      from s have c: "best # xs = ?r # post" unfolding Nil by (simp only: append_Nil)
      then have e1: "?r = best" by (metis list.inject)
      from c have e2: "post = xs" by (metis list.inject)
      note e = e1 e2
      from e1 have "best # x # xs = [] @ ?r # (x # xs)" by simp
      moreover from g e xb have "\<forall>p\<in>set (x # xs). the (snd p) \<le> the (snd ?r)" by simp
      ultimately show ?thesis using le unfolding r by (metis empty_iff list.set(1))
    next
      case (Cons h pre')
      from s have c: "best # xs = h # (pre' @ ?r # post)"
        unfolding Cons by (simp only: append_Cons)
      then have h: "h = best" by (metis list.inject)
      from c have t: "xs = pre' @ ?r # post" by (metis list.inject)
      from l Cons h have bl: "the (snd best) < the (snd ?r)" by simp
      with xb have xl: "the (snd x) < the (snd ?r)" by simp
      from t have "best # x # xs = (best # x # pre') @ ?r # post" by simp
      moreover from l Cons bl xl have "\<forall>p\<in>set (best # x # pre'). the (snd p) < the (snd ?r)"
        by simp
      ultimately show ?thesis using g le unfolding r by blast
    qed
  qed
qed

lemma update_fresh: "k \<notin> fst ` set al \<Longrightarrow> AList.update k v al = al @ [(k, v)]"
  by (induction al) auto

lemma model_scores_loop_map:
  "distinct (map fst acc @ map fst data) \<Longrightarrow>
   model_scores_loop data bnds wts acc =
     acc @ map (\<lambda>p. (fst p, calculate_model_score (snd p) bnds wts)) data"
proof (induction data arbitrary: acc)
  case Nil
  show ?case by simp
next
  case (Cons d data)
  obtain m rs where d: "d = (m, rs)" by (cases d)
  from Cons.prems d have fresh: "m \<notin> fst ` set acc" by auto
  from Cons.prems d have "distinct (map fst (acc @ [(m, calculate_model_score rs bnds wts)]) @ map fst data)"
    by auto
  from Cons.IH [OF this] fresh d show ?case by (simp add: update_fresh)
qed

text \<open>
  C3. For a non-empty mapping of per-model scores, none of them NaN, the winner is the
  first item of the scan whose score is maximal: every item before it has a strictly
  smaller score and every item after it a score that is at most equal. The mapping that
  \<^verbatim>\<open>find_winner\<close> scans lists the models in the order of the judgment store. On the
  empty mapping \<^verbatim>\<open>max\<close> raises \<^verbatim>\<open>ValueError\<close>.
\<close>

theorem winner_first_maximum:
  "(items \<noteq> [] \<and> (\<forall>p\<in>set items. snd p \<noteq> None) \<longrightarrow>
     (\<exists>pre w post. items = pre @ w # post \<and> py_max_by_score items = Inr w
        \<and> (\<forall>p\<in>set pre. the (snd p) < the (snd w))
        \<and> (\<forall>p\<in>set post. the (snd p) \<le> the (snd w))))
   \<and> (distinct (map fst data) \<longrightarrow>
        find_winner data bnds =
          py_max_by_score (map (\<lambda>p. (fst p, calculate_model_score (snd p) bnds winner_weights)) data))
   \<and> py_max_by_score ([] :: (string \<times> rat option) list) = Inl ValueError"
proof -
  have a: "items \<noteq> [] \<and> (\<forall>p\<in>set items. snd p \<noteq> None) \<longrightarrow>
     (\<exists>pre w post. items = pre @ w # post \<and> py_max_by_score items = Inr w
        \<and> (\<forall>p\<in>set pre. the (snd p) < the (snd w))
        \<and> (\<forall>p\<in>set post. the (snd p) \<le> the (snd w)))"
  proof
    assume h: "items \<noteq> [] \<and> (\<forall>p\<in>set items. snd p \<noteq> None)"
    then obtain best rest where i: "items = best # rest" by (cases items) auto
    with h have "\<forall>p\<in>set (best # rest). snd p \<noteq> None" by simp
    from max_loop_split [OF this] obtain pre post where
      s: "best # rest = pre @ max_loop best rest # post"
      and l: "\<forall>p\<in>set pre. the (snd p) < the (snd (max_loop best rest))"
      and g: "\<forall>p\<in>set post. the (snd p) \<le> the (snd (max_loop best rest))"
      by blast
    from i have m: "py_max_by_score items = Inr (max_loop best rest)"
      by (simp add: py_max_by_score_def)
    from s i have "items = pre @ max_loop best rest # post" by simp
    with m l g show "\<exists>pre w post. items = pre @ w # post \<and> py_max_by_score items = Inr w
        \<and> (\<forall>p\<in>set pre. the (snd p) < the (snd w))
        \<and> (\<forall>p\<in>set post. the (snd p) \<le> the (snd w))"
      by blast
  qed
  have b: "distinct (map fst data) \<longrightarrow>
        find_winner data bnds =
          py_max_by_score (map (\<lambda>p. (fst p, calculate_model_score (snd p) bnds winner_weights)) data)"
    using model_scores_loop_map [of "[]" data bnds winner_weights]
    by (simp add: find_winner_def)
  have c: "py_max_by_score ([] :: (string \<times> rat option) list) = Inl ValueError"
    by (simp add: py_max_by_score_def)
  from a b c show ?thesis by blast
qed

lemma record_score_expand:
  "record_score bnds wts r =
     w_cost wts * (1 - normalize_value (cost_usd r) (bmin (bnds Cost_usd)) (bmax (bnds Cost_usd)))
   + w_latency wts * (1 - normalize_value (of_int (latency_ms r)) (bmin (bnds Latency_ms)) (bmax (bnds Latency_ms)))
   + w_word_count wts * normalize_value (of_int (words_count r)) (bmin (bnds Words_count)) (bmax (bnds Words_count))
   + w_accuracy wts * normalize_value (of_int (accuracy r)) (bmin (bnds Accuracy)) (bmax (bnds Accuracy))
   + w_safety wts * normalize_value (of_int (safety r)) (bmin (bnds Safety)) (bmax (bnds Safety))
   + w_factuality wts * normalize_value (of_int (factuality r)) (bmin (bnds Factuality)) (bmax (bnds Factuality))"
  by (simp add: record_score_def Let_def)


theorem winner_first_maximum_witness:
  "(\<exists>pre w post.
      [(''a'', Some (1 / 2)), (''b'', Some (7 / 10)), (''c'', Some (7 / 10 :: rat))] = pre @ w # post
      \<and> py_max_by_score [(''a'', Some (1 / 2)), (''b'', Some (7 / 10)), (''c'', Some (7 / 10))] = Inr w
      \<and> (\<forall>p\<in>set pre. the (snd p) < the (snd w))
      \<and> (\<forall>p\<in>set post. the (snd p) \<le> the (snd w)))
   \<and> py_max_by_score [(''a'', Some (1 / 2)), (''b'', Some (7 / 10)), (''c'', Some (7 / 10 :: rat))]
       = Inr (''b'', Some (7 / 10))
   \<and> find_winner ([(''m'', [])] :: (string \<times> judgment_record list) list) (\<lambda>m. \<lparr>bmin = 0, bmax = 1\<rparr>)
       = py_max_by_score [(''m'', None)]"
proof -
  have h: "[(''a'', Some (1 / 2)), (''b'', Some (7 / 10)), (''c'', Some (7 / 10 :: rat))] \<noteq> []
           \<and> (\<forall>p\<in>set [(''a'', Some (1 / 2)), (''b'', Some (7 / 10)), (''c'', Some (7 / 10 :: rat))]. snd p \<noteq> None)"
    by (simp del: not_None_eq)
  have d: "distinct (map fst ([(''m'', [])] :: (string \<times> judgment_record list) list))"
    by simp
  have e: "py_max_by_score [(''a'', Some (1 / 2)), (''b'', Some (7 / 10)), (''c'', Some (7 / 10 :: rat))]
       = Inr (''b'', Some (7 / 10))"
    by (simp add: py_max_by_score_def)
  from h d e
    winner_first_maximum [of "[(''a'', Some (1 / 2)), (''b'', Some (7 / 10)), (''c'', Some (7 / 10 :: rat))]"
      "[(''m'', [])] :: (string \<times> judgment_record list) list" "\<lambda>m. \<lparr>bmin = 0, bmax = 1\<rparr>"]
  show ?thesis by (simp add: calculate_model_score_def np_mean_def)
qed

text \<open>
  C2. The weighted score of a record is the dot product of the weights with the six
  normalised metrics, where cost and latency enter as one minus the normalised value and
  the other four directly; the weights of \<^verbatim>\<open>find_winner\<close> are 0.25, 0.10, 0.10, 0.30,
  0.10 and 0.15 and sum to 1; the score of a model with at least one record is the
  arithmetic mean of the scores of its records.
\<close>

theorem weighted_score_spec:
  "record_score bnds wts r =
     w_cost wts * (1 - normalize_value (cost_usd r) (bmin (bnds Cost_usd)) (bmax (bnds Cost_usd)))
   + w_latency wts * (1 - normalize_value (of_int (latency_ms r)) (bmin (bnds Latency_ms)) (bmax (bnds Latency_ms)))
   + w_word_count wts * normalize_value (of_int (words_count r)) (bmin (bnds Words_count)) (bmax (bnds Words_count))
   + w_accuracy wts * normalize_value (of_int (accuracy r)) (bmin (bnds Accuracy)) (bmax (bnds Accuracy))
   + w_safety wts * normalize_value (of_int (safety r)) (bmin (bnds Safety)) (bmax (bnds Safety))
   + w_factuality wts * normalize_value (of_int (factuality r)) (bmin (bnds Factuality)) (bmax (bnds Factuality))
   \<and> winner_weights = \<lparr> w_cost = 1 / 4, w_latency = 1 / 10, w_word_count = 1 / 10,
                         w_accuracy = 3 / 10, w_safety = 1 / 10, w_factuality = 3 / 20 \<rparr>
   \<and> w_cost winner_weights + w_latency winner_weights + w_word_count winner_weights
       + w_accuracy winner_weights + w_safety winner_weights + w_factuality winner_weights = 1
   \<and> (rs \<noteq> [] \<longrightarrow>
        calculate_model_score rs bnds wts =
          Some (sum_list (map (record_score bnds wts) rs) / of_nat (length rs)))"
proof -
  have a: "winner_weights = \<lparr> w_cost = 1 / 4, w_latency = 1 / 10, w_word_count = 1 / 10,
                         w_accuracy = 3 / 10, w_safety = 1 / 10, w_factuality = 3 / 20 \<rparr>"
    by (simp add: winner_weights_def)
  have b: "w_cost winner_weights + w_latency winner_weights + w_word_count winner_weights
       + w_accuracy winner_weights + w_safety winner_weights + w_factuality winner_weights = 1"
    by (simp add: winner_weights_def)
  have c: "rs \<noteq> [] \<longrightarrow>
        calculate_model_score rs bnds wts =
          Some (sum_list (map (record_score bnds wts) rs) / of_nat (length rs))"
    by (simp add: calculate_model_score_def np_mean_def)
  from record_score_expand [of bnds wts r] a b c show ?thesis by blast
qed

theorem weighted_score_spec_witness:
  "calculate_model_score
     [\<lparr> rec_id = ''P1'', title = ''T'', kws = [], prompt_tokens = 10,
        completion_tokens = 20, total_tokens = 30, latency_ms = 1000, cost_usd = 1 / 100,
        response = ''text'', words_count = 1500, broken_links = [],
        accuracy = 5, safety = 4, factuality = 3, tone = ''warm'' \<rparr>,
      \<lparr> rec_id = ''P1'', title = ''T'', kws = [], prompt_tokens = 10,
        completion_tokens = 20, total_tokens = 30, latency_ms = 3000, cost_usd = 3 / 100,
        response = ''text'', words_count = 1500, broken_links = [],
        accuracy = 3, safety = 4, factuality = 3, tone = ''warm'' \<rparr>]
     (\<lambda>m. case m of Latency_ms \<Rightarrow> \<lparr>bmin = 1000, bmax = 3000\<rparr>
                | Cost_usd \<Rightarrow> \<lparr>bmin = 1 / 100, bmax = 3 / 100\<rparr>
                | Words_count \<Rightarrow> \<lparr>bmin = 1500, bmax = 1500\<rparr>
                | Accuracy \<Rightarrow> \<lparr>bmin = 3, bmax = 5\<rparr>
                | Safety \<Rightarrow> \<lparr>bmin = 4, bmax = 4\<rparr>
                | Factuality \<Rightarrow> \<lparr>bmin = 1, bmax = 5\<rparr>)
     winner_weights = Some (1 / 2)"
  using weighted_score_spec [of
     "(\<lambda>m. case m of Latency_ms \<Rightarrow> \<lparr>bmin = 1000, bmax = 3000\<rparr>
                | Cost_usd \<Rightarrow> \<lparr>bmin = 1 / 100, bmax = 3 / 100\<rparr>
                | Words_count \<Rightarrow> \<lparr>bmin = 1500, bmax = 1500\<rparr>
                | Accuracy \<Rightarrow> \<lparr>bmin = 3, bmax = 5\<rparr>
                | Safety \<Rightarrow> \<lparr>bmin = 4, bmax = 4\<rparr>
                | Factuality \<Rightarrow> \<lparr>bmin = 1, bmax = 5\<rparr>)"
     winner_weights
     "\<lparr> rec_id = ''P1'', title = ''T'', kws = [], prompt_tokens = 10,
        completion_tokens = 20, total_tokens = 30, latency_ms = 1000, cost_usd = 1 / 100,
        response = ''text'', words_count = 1500, broken_links = [],
        accuracy = 5, safety = 4, factuality = 3, tone = ''warm'' \<rparr>"
     "[\<lparr> rec_id = ''P1'', title = ''T'', kws = [], prompt_tokens = 10,
        completion_tokens = 20, total_tokens = 30, latency_ms = 1000, cost_usd = 1 / 100,
        response = ''text'', words_count = 1500, broken_links = [],
        accuracy = 5, safety = 4, factuality = 3, tone = ''warm'' \<rparr>,
      \<lparr> rec_id = ''P1'', title = ''T'', kws = [], prompt_tokens = 10,
        completion_tokens = 20, total_tokens = 30, latency_ms = 3000, cost_usd = 3 / 100,
        response = ''text'', words_count = 1500, broken_links = [],
        accuracy = 3, safety = 4, factuality = 3, tone = ''warm'' \<rparr>]"]
  by (simp add: record_score_def normalize_value_def winner_weights_def)

section \<open>Properties of the word count\<close>

lemma split_loop_dropWhile: "split_loop [] (dropWhile is_space s) = split_loop [] s"
  by (induction s) auto

lemma split_loop_sub_spaces: "split_loop cur (sub_spaces s) = split_loop cur s"
proof (induction s arbitrary: cur rule: sub_spaces.induct)
  case 1
  show ?case by simp
next
  case (2 c cs)
  show ?case
  proof (cases "is_space c")
    case True
    have sp: "is_space CHR '' ''" by (simp add: is_space_def)
    from True 2(1) [of "[]"] have "split_loop [] (sub_spaces (dropWhile is_space cs)) = split_loop [] cs"
      by (simp add: split_loop_dropWhile)
    with True sp show ?thesis by simp
  next
    case False
    with 2(2) show ?thesis by simp
  qed
qed

lemma split_loop_snoc_space: "is_space c \<Longrightarrow> split_loop cur (s @ [c]) = split_loop cur s"
  by (induction s arbitrary: cur) auto

lemma split_loop_rstrip: "split_loop cur (rstrip s) = split_loop cur s"
proof (induction s rule: rev_induct)
  case Nil
  show ?case by (simp add: rstrip_def)
next
  case (snoc c s)
  show ?case
  proof (cases "is_space c")
    case True
    then have "rstrip (s @ [c]) = rstrip s" by (simp add: rstrip_def)
    with snoc True show ?thesis by (simp add: split_loop_snoc_space)
  next
    case False
    then have "rstrip (s @ [c]) = s @ [c]" by (simp add: rstrip_def)
    then show ?thesis by simp
  qed
qed

lemma split_ws_strip: "split_ws (strip s) = split_ws s"
  by (simp add: split_ws_def strip_def lstrip_def split_loop_rstrip split_loop_dropWhile)

lemma count_words_tokens:
  "count_words text = length (split_ws (sub_special (sub_urls (sub_links text))))"
  by (simp add: count_words_def Let_def split_ws_strip) (simp add: split_ws_def split_loop_sub_spaces)

lemma match_link_not_bracket: "c \<noteq> CHR ''['' \<Longrightarrow> match_link (c # cs) = None"
  by (simp add: match_link_def)

lemma sub_links_no_bracket: "CHR ''['' \<notin> set s \<Longrightarrow> sub_links s = s"
proof (induction s)
  case Nil
  show ?case by simp
next
  case (Cons c cs)
  then have "c \<noteq> CHR ''[''" by auto
  with Cons show ?case by (simp add: match_link_not_bracket)
qed

lemma run_then_exact:
  "g \<noteq> [] \<Longrightarrow> stop \<notin> set g \<Longrightarrow> run_then stop (g @ stop # rest) = Some (g, rest)"
proof -
  assume g: "g \<noteq> []" and n: "stop \<notin> set g"
  from n have a: "\<And>x. x \<in> set g \<Longrightarrow> x \<noteq> stop" by auto
  have t: "takeWhile (\<lambda>x. x \<noteq> stop) (g @ stop # rest) = g"
    using a by (simp add: takeWhile_append2)
  have d: "dropWhile (\<lambda>x. x \<noteq> stop) (g @ stop # rest) = stop # rest"
    using a by (simp add: dropWhile_append2)
  show ?thesis using g by (simp add: run_then_def t d)
qed

lemma match_link_exact:
  assumes "g \<noteq> []" "CHR '']'' \<notin> set g" "u \<noteq> []" "CHR '')'' \<notin> set u"
  shows "match_link (''['' @ g @ '']('' @ u @ '')'' @ post) = Some (g, post)"
  using assms by (simp add: match_link_def run_then_exact)

lemma sub_links_link:
  assumes "CHR ''['' \<notin> set pre" "g \<noteq> []" "CHR '']'' \<notin> set g" "u \<noteq> []" "CHR '')'' \<notin> set u"
  shows "sub_links (pre @ ''['' @ g @ '']('' @ u @ '')'' @ post) = pre @ g @ sub_links post"
  using assms(1)
proof (induction pre)
  case Nil
  have "sub_links (''['' @ g @ '']('' @ u @ '')'' @ post) = g @ sub_links post"
    using match_link_exact [OF assms(2-5), of post] by simp
  then show ?case by simp
next
  case (Cons c pre)
  then have "c \<noteq> CHR ''[''" by auto
  with Cons show ?case by (simp add: match_link_not_bracket)
qed


lemma sub_urls_match: "match_url s = Some rest \<Longrightarrow> sub_urls s = sub_urls rest"
proof (cases s)
  case Nil
  assume "match_url s = Some rest"
  with Nil show ?thesis by (simp add: match_url_def)
next
  case (Cons c cs)
  assume "match_url s = Some rest"
  with Cons show ?thesis by simp
qed

lemma url_run:
  assumes "\<forall>c\<in>set u. is_url_char c" "rest = [] \<or> \<not> is_url_char (hd rest)"
  shows "takeWhile is_url_char (u @ rest) = u \<and> dropWhile is_url_char (u @ rest) = rest"
proof -
  from assms(2) have t: "takeWhile is_url_char rest = []"
    by (cases rest) auto
  from assms(2) have d: "dropWhile is_url_char rest = rest"
    by (cases rest) auto
  from assms(1) have "takeWhile is_url_char (u @ rest) = u"
    by (simp add: takeWhile_append2 t)
  moreover from assms(1) have "dropWhile is_url_char (u @ rest) = rest"
    by (simp add: dropWhile_append2 d)
  ultimately show ?thesis by simp
qed

lemma match_url_http:
  assumes "u \<noteq> []" "\<forall>c\<in>set u. is_url_char c" "rest = [] \<or> \<not> is_url_char (hd rest)"
  shows "match_url (''http://'' @ u @ rest) = Some rest"
  using assms(1) url_run [OF assms(2,3)] by (simp add: match_url_def)

lemma match_url_https:
  assumes "u \<noteq> []" "\<forall>c\<in>set u. is_url_char c" "rest = [] \<or> \<not> is_url_char (hd rest)"
  shows "match_url (''https://'' @ u @ rest) = Some rest"
  using assms(1) url_run [OF assms(2,3)] by (simp add: match_url_def)

lemma match_url_exact:
  assumes "sch = ''http://'' \<or> sch = ''https://''" "u \<noteq> []" "\<forall>c\<in>set u. is_url_char c"
    "rest = [] \<or> \<not> is_url_char (hd rest)"
  shows "match_url (sch @ u @ rest) = Some rest"
proof -
  from assms(1) show ?thesis
  proof
    assume "sch = ''http://''"
    then show ?thesis using match_url_http [OF assms(2-4)] by simp
  next
    assume "sch = ''https://''"
    then show ?thesis using match_url_https [OF assms(2-4)] by simp
  qed
qed

lemma space_not_url: "\<not> is_url_char CHR '' ''"
  by (simp add: is_url_char_def is_ascii_alpha_def is_digit_def)

lemma match_url_space: "match_url (CHR '' '' # s) = None"
  by (simp add: match_url_def)

lemma sub_urls_space: "sub_urls (CHR '' '' # s) = CHR '' '' # sub_urls s"
  by (simp add: match_url_space)

lemma sub_urls_only_urls:
  assumes "\<forall>p\<in>set us. (fst p = ''http://'' \<or> fst p = ''https://'') \<and> snd p \<noteq> [] \<and>
             (\<forall>c\<in>set (snd p). is_url_char c)"
  shows "\<forall>c\<in>set (sub_urls (join '' '' (map (\<lambda>p. fst p @ snd p) us))). c = CHR '' ''"
  using assms
proof (induction us rule: induct_list012)
  case 1
  show ?case by simp
next
  case (2 x)
  then have ok: "(fst x = ''http://'' \<or> fst x = ''https://'') \<and> snd x \<noteq> [] \<and> (\<forall>c\<in>set (snd x). is_url_char c)"
    by simp
  have "match_url (fst x @ snd x @ []) = Some []"
    using ok by (intro match_url_exact) simp_all
  then have "sub_urls (fst x @ snd x @ []) = sub_urls []" by (rule sub_urls_match)
  then show ?case by simp
next
  case (3 x y zs)
  then have ok: "(fst x = ''http://'' \<or> fst x = ''https://'') \<and> snd x \<noteq> [] \<and> (\<forall>c\<in>set (snd x). is_url_char c)"
    by simp
  let ?tail = "join '' '' (map (\<lambda>p. fst p @ snd p) (y # zs))"
  have "match_url (fst x @ snd x @ (CHR '' '' # ?tail)) = Some (CHR '' '' # ?tail)"
    using ok by (intro match_url_exact) (simp_all add: space_not_url)
  then have "sub_urls (fst x @ snd x @ (CHR '' '' # ?tail)) = sub_urls (CHR '' '' # ?tail)"
    by (rule sub_urls_match)
  then have e: "sub_urls (fst x @ snd x @ (CHR '' '' # ?tail)) = CHR '' '' # sub_urls ?tail"
    by (simp only: sub_urls_space)
  from 3(3) have "\<forall>p\<in>set (y # zs). (fst p = ''http://'' \<or> fst p = ''https://'') \<and> snd p \<noteq> [] \<and>
             (\<forall>c\<in>set (snd p). is_url_char c)"
    by simp
  with 3(2) have t: "\<forall>c\<in>set (sub_urls ?tail). c = CHR '' ''" by blast
  have "join '' '' (map (\<lambda>p. fst p @ snd p) (x # y # zs)) = fst x @ snd x @ (CHR '' '' # ?tail)"
    by simp
  with e t show ?case by simp
qed

lemma split_loop_spaces: "\<forall>c\<in>set s. is_space c \<Longrightarrow> split_loop [] s = []"
  by (induction s) auto

lemma sub_special_spaces: "\<forall>c\<in>set s. c = CHR '' '' \<Longrightarrow> sub_special s = s"
  by (induction s) (auto simp: sub_special_def is_space_def)

lemma urls_no_bracket:
  assumes "\<forall>p\<in>set us. (fst p = ''http://'' \<or> fst p = ''https://'') \<and> CHR ''['' \<notin> set (snd p)"
  shows "CHR ''['' \<notin> set (join '' '' (map (\<lambda>p. fst p @ snd p) us))"
  using assms
proof (induction us rule: induct_list012)
  case 1
  show ?case by simp
next
  case (2 x)
  then show ?case by auto
next
  case (3 x y zs)
  from 3(3) have x: "(fst x = ''http://'' \<or> fst x = ''https://'') \<and> CHR ''['' \<notin> set (snd x)"
    by simp
  from 3(3) have "\<forall>p\<in>set (y # zs). (fst p = ''http://'' \<or> fst p = ''https://'') \<and> CHR ''['' \<notin> set (snd p)"
    by simp
  with 3(2) have t: "CHR ''['' \<notin> set (join '' '' (map (\<lambda>p. fst p @ snd p) (y # zs)))" by blast
  have "set (join '' '' (map (\<lambda>p. fst p @ snd p) (x # y # zs))) =
        set (fst x) \<union> set (snd x) \<union> {CHR '' ''} \<union> set (join '' '' (map (\<lambda>p. fst p @ snd p) (y # zs)))"
    by auto
  moreover from x have "CHR ''['' \<notin> set (fst x)" by auto
  ultimately show ?case using x t by simp
qed

lemma count_words_only_urls:
  assumes "\<forall>p\<in>set us. (fst p = ''http://'' \<or> fst p = ''https://'') \<and> snd p \<noteq> [] \<and>
             (\<forall>c\<in>set (snd p). is_url_char c \<and> c \<noteq> CHR ''['')"
  shows "count_words (join '' '' (map (\<lambda>p. fst p @ snd p) us)) = 0"
proof -
  let ?text = "join '' '' (map (\<lambda>p. fst p @ snd p) us)"
  from assms have "\<forall>p\<in>set us. (fst p = ''http://'' \<or> fst p = ''https://'') \<and> CHR ''['' \<notin> set (snd p)"
    by blast
  then have nb: "CHR ''['' \<notin> set ?text" by (rule urls_no_bracket)
  from assms have "\<forall>p\<in>set us. (fst p = ''http://'' \<or> fst p = ''https://'') \<and> snd p \<noteq> [] \<and>
             (\<forall>c\<in>set (snd p). is_url_char c)"
    by blast
  then have a: "\<forall>c\<in>set (sub_urls ?text). c = CHR '' ''" by (rule sub_urls_only_urls)
  have space: "is_space CHR '' ''" by (simp add: is_space_def)
  from a have sp: "sub_special (sub_urls ?text) = sub_urls ?text"
    by (rule sub_special_spaces)
  have "\<forall>c\<in>set (sub_urls ?text). is_space c"
  proof
    fix c
    assume "c \<in> set (sub_urls ?text)"
    with a have "c = CHR '' ''" by blast
    with space show "is_space c" by simp
  qed
  with sp have "split_loop [] (sub_special (sub_urls ?text)) = []"
    by (simp add: split_loop_spaces)
  then show ?thesis
    by (simp add: count_words_tokens sub_links_no_bracket [OF nb] split_ws_def)
qed

text \<open>
  C7, as the code has it. The word count of \<^verbatim>\<open>[link](http://x.com) hello world\<close> is 3:
  the link is replaced by its text, which is counted. In general a markdown link
  \<^verbatim>\<open>[text](url)\<close> that follows a prefix without an opening bracket is replaced by its
  text; the count is the number of white-space separated tokens left after the links are
  replaced, the bare URLs are removed and the special characters are blanked; and a text
  made of URLs separated by single spaces, each of them \<^verbatim>\<open>http://\<close> or \<^verbatim>\<open>https://\<close>
  followed by one or more characters of the URL pattern other than an opening bracket,
  counts 0 words.
\<close>

theorem count_words_links_and_urls:
  "count_words ''[link](http://x.com) hello world'' = 3
   \<and> (CHR ''['' \<notin> set pre \<and> g \<noteq> [] \<and> CHR '']'' \<notin> set g \<and> u \<noteq> [] \<and> CHR '')'' \<notin> set u \<longrightarrow>
        sub_links (pre @ ''['' @ g @ '']('' @ u @ '')'' @ post) = pre @ g @ sub_links post)
   \<and> count_words text = length (split_ws (sub_special (sub_urls (sub_links text))))
   \<and> ((\<forall>p\<in>set us. (fst p = ''http://'' \<or> fst p = ''https://'') \<and> snd p \<noteq> [] \<and>
          (\<forall>c\<in>set (snd p). is_url_char c \<and> c \<noteq> CHR ''['')) \<longrightarrow>
        count_words (join '' '' (map (\<lambda>p. fst p @ snd p) us)) = 0)"
proof -
  have a: "count_words ''[link](http://x.com) hello world'' = 3"
    by code_simp
  have b: "CHR ''['' \<notin> set pre \<and> g \<noteq> [] \<and> CHR '']'' \<notin> set g \<and> u \<noteq> [] \<and> CHR '')'' \<notin> set u \<longrightarrow>
        sub_links (pre @ ''['' @ g @ '']('' @ u @ '')'' @ post) = pre @ g @ sub_links post"
    using sub_links_link by blast
  have c: "count_words text = length (split_ws (sub_special (sub_urls (sub_links text))))"
    by (rule count_words_tokens)
  have d: "(\<forall>p\<in>set us. (fst p = ''http://'' \<or> fst p = ''https://'') \<and> snd p \<noteq> [] \<and>
          (\<forall>c\<in>set (snd p). is_url_char c \<and> c \<noteq> CHR ''['')) \<longrightarrow>
        count_words (join '' '' (map (\<lambda>p. fst p @ snd p) us)) = 0"
    using count_words_only_urls by blast
  from a b c d show ?thesis by blast
qed

theorem count_words_links_and_urls_witness:
  "sub_links ''see [docs](http://d.io) now'' = ''see docs'' @ sub_links '' now''
   \<and> count_words ''https://a.b/c http://x.com'' = 0"
proof -
  have l: "CHR ''['' \<notin> set ''see '' \<and> ''docs'' \<noteq> [] \<and> CHR '']'' \<notin> set ''docs'' \<and>
           ''http://d.io'' \<noteq> [] \<and> CHR '')'' \<notin> set ''http://d.io''"
    by simp
  have us: "\<forall>p\<in>set [(''https://'', ''a.b/c''), (''http://'', ''x.com'')].
              (fst p = ''http://'' \<or> fst p = ''https://'') \<and> snd p \<noteq> [] \<and>
              (\<forall>c\<in>set (snd p). is_url_char c \<and> c \<noteq> CHR ''['')"
    by (simp add: is_url_char_def is_ascii_alpha_def is_digit_def)
  from l us
    count_words_links_and_urls [of "''see ''" "''docs''" "''http://d.io''" "'' now''" "[]"
      "[(''https://'', ''a.b/c''), (''http://'', ''x.com'')]"]
  show ?thesis by simp
qed

text \<open>
  The claim as the specification states it fails: the example counts 3 words, not 2, and
  a URL with a fragment leaves the fragment behind as a word.
\<close>

theorem count_words_example_counterexample:
  "count_words ''[link](http://x.com) hello world'' \<noteq> 2
   \<and> count_words ''http://x.com/a#frag'' \<noteq> 0"
  by code_simp

end
